theory Spec2Isabelle
  imports Complex_Main "HOL-Library.Multiset" "HOL-Library.Word"
begin

section \<open>Geometry helpers (utils_geom.py)\<close>

text \<open>
  A point is a row \<open>[x, y]\<close> of an array of shape \<open>(n, 2)\<close>; an array of points is a list
  of pairs. The arrays of the source hold \<open>float32\<close> numbers: a coordinate is the real
  value of a finite \<open>float32\<close>.
\<close>

type_synonym point = "real \<times> real"

datatype error = ValueError | ZeroDivisionError | OverflowError | CvError

subsection \<open>Floating-point arithmetic\<close>

text \<open>
  Rounding to the nearest integer, ties to the even one.
\<close>

definition round_half_even :: "real \<Rightarrow> int" where
  "round_half_even x =
     (let f = \<lfloor>x\<rfloor>; d = x - of_int f
      in if d < 1 / 2 then f
         else if 1 / 2 < d then f + 1
         else if even f then f else f + 1)"

text \<open>
  Rounding of a real to the nearest binary floating-point number with \<open>p\<close> significant
  bits and least exponent \<open>emin\<close>, ties to even, the exponent unbounded above: with \<open>e\<close>
  the exponent of \<open>x\<close> (not below \<open>emin\<close>, where the numbers are subnormal), the
  numbers around \<open>x\<close> are the multiples of \<open>2 ^ (e - p + 1)\<close>.
\<close>

definition round_float :: "nat \<Rightarrow> int \<Rightarrow> real \<Rightarrow> real" where
  "round_float p emin x =
     (if x = 0 then 0
      else
        let e = max \<lfloor>log 2 \<bar>x\<bar>\<rfloor> emin;
            q = 2 powr of_int (e - int p + 1)
        in of_int (round_half_even (x / q)) * q)"

text \<open>
  The result of an arithmetic operation in \<open>float32\<close> (24 bits, exponents from -126 to
  127) and in \<open>float64\<close> (53 bits, exponents from -1022 to 1023) is its exact result
  rounded. A rounded value beyond the largest finite number is an infinity; the
  infinities are written \<open>2 ^ 128\<close> and \<open>- 2 ^ 128\<close> for \<open>float32\<close>, \<open>2 ^ 1024\<close> and
  \<open>- 2 ^ 1024\<close> for \<open>float64\<close>: they compare with the finite numbers and with each other
  as the infinities do.
\<close>

definition f32 :: "real \<Rightarrow> real" where
  "f32 x =
     (let r = round_float 24 (- 126) x
      in if 2 ^ 128 \<le> \<bar>r\<bar> then (if 0 < x then 2 ^ 128 else - (2 ^ 128)) else r)"

definition f64 :: "real \<Rightarrow> real" where
  "f64 x =
     (let r = round_float 53 (- 1022) x
      in if 2 ^ 1024 \<le> \<bar>r\<bar> then (if 0 < x then 2 ^ 1024 else - (2 ^ 1024)) else r)"

text \<open>\<open>np.sqrt\<close> of a \<open>float32\<close> that is not negative; the square root of infinity is infinity.\<close>

definition f32_sqrt :: "real \<Rightarrow> real" where
  "f32_sqrt x = (if 2 ^ 128 \<le> x then 2 ^ 128 else f32 (sqrt x))"

text \<open>
  Python's \<open>int(x)\<close> on a float truncates towards zero, and raises \<open>OverflowError\<close> on an
  infinity.
\<close>

definition py_int :: "real \<Rightarrow> int" where
  "py_int x = (if 0 \<le> x then \<lfloor>x\<rfloor> else \<lceil>x\<rceil>)"

definition int_of_f32 :: "real \<Rightarrow> error + int" where
  "int_of_f32 x = (if 2 ^ 128 \<le> \<bar>x\<bar> then Inl OverflowError else Inr (py_int x))"

definition int_of_f64 :: "real \<Rightarrow> error + int" where
  "int_of_f64 x = (if 2 ^ 1024 \<le> \<bar>x\<bar> then Inl OverflowError else Inr (py_int x))"

text \<open>
  The conversion of a Python integer to a float, which Python makes before it multiplies
  an integer by a float: the nearest \<open>float64\<close>, and \<open>OverflowError\<close> when there is none.
\<close>

definition py_float :: "int \<Rightarrow> error + real" where
  "py_float n = (if 2 ^ 1024 \<le> \<bar>f64 (of_int n)\<bar> then Inl OverflowError else Inr (f64 (of_int n)))"

text \<open>
  The true division \<open>a / b\<close> of two Python integers: the quotient rounded once to
  \<open>float64\<close>; \<open>ZeroDivisionError\<close> for a zero divisor, \<open>OverflowError\<close> for a quotient too
  large for a float.
\<close>

definition py_truediv :: "int \<Rightarrow> int \<Rightarrow> error + real" where
  "py_truediv a b =
     (if b = 0 then Inl ZeroDivisionError
      else if 2 ^ 1024 \<le> \<bar>f64 (of_int a / of_int b)\<bar> then Inl OverflowError
      else Inr (f64 (of_int a / of_int b)))"

subsection \<open>order_points\<close>

text \<open>
  \<open>np.argmin\<close> and \<open>np.argmax\<close> return the index of the first occurrence of the
  minimum (maximum); on an empty array they raise \<open>ValueError\<close>, which the callers
  below check before they index.
\<close>

fun first_index :: "('a \<Rightarrow> bool) \<Rightarrow> 'a list \<Rightarrow> nat" where
  "first_index P [] = 0"
| "first_index P (x # xs) = (if P x then 0 else Suc (first_index P xs))"

definition argmin :: "real list \<Rightarrow> nat" where
  "argmin xs = first_index (\<lambda>x. x = Min (set xs)) xs"

definition argmax :: "real list \<Rightarrow> nat" where
  "argmax xs = first_index (\<lambda>x. x = Max (set xs)) xs"

text \<open>\<open>pts.sum(axis=1)\<close>: per row, \<open>x + y\<close> in \<open>float32\<close>.\<close>

definition row_sum :: "point \<Rightarrow> real" where
  "row_sum p = f32 (fst p + snd p)"

definition sum_axis1 :: "point list \<Rightarrow> real list" where
  "sum_axis1 pts = map row_sum pts"

text \<open>
  \<open>np.diff(pts, axis=1)\<close>: per row, the second column minus the first, \<open>y - x\<close> in
  \<open>float32\<close>.
\<close>

definition row_diff :: "point \<Rightarrow> real" where
  "row_diff p = f32 (snd p - fst p)"

definition diff_axis1 :: "point list \<Rightarrow> real list" where
  "diff_axis1 pts = map row_diff pts"

text \<open>
  \<open>order_points\<close> fills \<open>rect[0]\<close> (top-left), \<open>rect[2]\<close> (bottom-right), \<open>rect[1]\<close>
  (top-right) and \<open>rect[3]\<close> (bottom-left) of a fresh \<open>(4, 2)\<close> array. It checks nothing
  about the number of rows: the only failure is the \<open>ValueError\<close> of \<open>argmin\<close> on an
  array without rows.
\<close>

definition order_points :: "point list \<Rightarrow> error + point list" where
  "order_points pts =
     (if pts = [] then Inl ValueError
      else
        let s = sum_axis1 pts;
            rect0 = pts ! argmin s;
            rect2 = pts ! argmax s;
            diff = diff_axis1 pts;
            rect1 = pts ! argmin diff;
            rect3 = pts ! argmax diff
        in Inr [rect0, rect1, rect2, rect3])"

text \<open>
  \<open>np.sqrt((p[0] - q[0]) ** 2 + (p[1] - q[1]) ** 2)\<close>, the length of the edge from \<open>q\<close> to
  \<open>p\<close> as the source computes it on \<open>float32\<close> scalars: each difference, each square, the
  sum and the square root are rounded to \<open>float32\<close> (a square is taken as the correctly
  rounded product).
\<close>

definition edge_length :: "point \<Rightarrow> point \<Rightarrow> real" where
  "edge_length p q =
     (let dx = f32 (fst p - fst q);
          dy = f32 (snd p - snd q)
      in f32_sqrt (f32 (f32 (dx * dx) + f32 (dy * dy))))"

section \<open>Images and the OpenCV calls (image_ops.py)\<close>

text \<open>
  An image is an array of shape \<open>(rows, cols, 3)\<close> (or \<open>(rows, cols)\<close> for one channel) of
  unsigned bytes, stored row-major; \<open>img.shape[:2]\<close> is \<open>(rows, cols)\<close>.
\<close>

type_synonym u8 = "8 word"

record image =
  rows :: int
  cols :: int
  data :: "u8 list"

type_synonym matrix = "real list list"

type_synonym contour = "(int \<times> int) list"

datatype interpolation = INTER_LINEAR | INTER_AREA | INTER_CUBIC

datatype color_code = COLOR_BGR2GRAY | COLOR_BGR2LAB | COLOR_LAB2BGR

text \<open>
  The functions of OpenCV that the module calls are not part of the repository. They are
  handed to every definition below as a record of functions, one field per call, with the
  arguments the module passes (a \<open>dsize\<close> is \<open>(width, height)\<close>). \<open>resize_by\<close> is
  \<open>cv2.resize(img, None, fx=..., fy=...)\<close>; \<open>clahe_apply\<close> is
  \<open>cv2.createCLAHE(clipLimit=..., tileGridSize=...).apply(l)\<close>; \<open>findContours\<close> is called
  with \<open>RETR_EXTERNAL\<close> and \<open>CHAIN_APPROX_SIMPLE\<close> and only its list of contours is kept.
  \<open>resize\<close>, the call with an explicit \<open>dsize\<close>, can fail; what happens inside the other
  calls, failures included, is outside the model.
\<close>

record cv2 =
  resize :: "image \<Rightarrow> int \<times> int \<Rightarrow> interpolation \<Rightarrow> error + image"
  resize_by :: "image \<Rightarrow> real \<Rightarrow> real \<Rightarrow> image"
  cvtColor :: "image \<Rightarrow> color_code \<Rightarrow> image"
  GaussianBlur :: "image \<Rightarrow> int \<times> int \<Rightarrow> real \<Rightarrow> image"
  Canny :: "image \<Rightarrow> real \<Rightarrow> real \<Rightarrow> image"
  dilate :: "image \<Rightarrow> nat \<Rightarrow> image"
  findContours :: "image \<Rightarrow> contour list"
  contourArea :: "contour \<Rightarrow> real"
  arcLength :: "contour \<Rightarrow> bool \<Rightarrow> real"
  approxPolyDP :: "contour \<Rightarrow> real \<Rightarrow> bool \<Rightarrow> contour"
  getPerspectiveTransform :: "point list \<Rightarrow> point list \<Rightarrow> matrix"
  warpPerspective :: "image \<Rightarrow> matrix \<Rightarrow> int \<times> int \<Rightarrow> image"
  fastNlMeansDenoisingColored :: "image \<Rightarrow> real \<Rightarrow> real \<Rightarrow> int \<Rightarrow> int \<Rightarrow> image"
  split_channels :: "image \<Rightarrow> image list"
  merge_channels :: "image list \<Rightarrow> image"
  clahe_apply :: "real \<Rightarrow> int \<times> int \<Rightarrow> image \<Rightarrow> image"

subsection \<open>four_point_transform (utils_geom.py)\<close>

text \<open>
  The function orders the corners, measures the four edges and returns the corners of the
  destination rectangle together with the ordered source corners. Its first argument, the
  image, is not used. The corners \<open>tl, tr, br, bl\<close> of the source are written \<open>top_l\<close>,
  \<open>top_r\<close>, \<open>bot_r\<close>, \<open>bot_l\<close>. \<open>int(width_a)\<close> and its like raise \<open>OverflowError\<close> when the
  length is infinite; \<open>dst\<close> is a \<open>float32\<close> array, so its integer entries are rounded.
\<close>

definition four_point_transform :: "image \<Rightarrow> point list \<Rightarrow> error + point list \<times> point list" where
  "four_point_transform img pts =
     (case order_points pts of
        Inl e \<Rightarrow> Inl e
      | Inr rect \<Rightarrow>
          (case rect of
             [top_l, top_r, bot_r, bot_l] \<Rightarrow>
               let width_a = edge_length bot_r bot_l;
                   width_b = edge_length top_r top_l
               in (case int_of_f32 width_a of Inl e \<Rightarrow> Inl e | Inr int_width_a \<Rightarrow>
                   case int_of_f32 width_b of Inl e \<Rightarrow> Inl e | Inr int_width_b \<Rightarrow>
                     let max_width = max int_width_a int_width_b;
                         height_a = edge_length top_r bot_r;
                         height_b = edge_length top_l bot_l
                     in (case int_of_f32 height_a of Inl e \<Rightarrow> Inl e | Inr int_height_a \<Rightarrow>
                         case int_of_f32 height_b of Inl e \<Rightarrow> Inl e | Inr int_height_b \<Rightarrow>
                           let max_height = max int_height_a int_height_b;
                               dst = [(0, 0),
                                      (f32 (of_int (max_width - 1)), 0),
                                      (f32 (of_int (max_width - 1)), f32 (of_int (max_height - 1))),
                                      (0, f32 (of_int (max_height - 1)))]
                           in Inr (dst, rect)))
           | _ \<Rightarrow> Inl ValueError))"

subsection \<open>auto_detect_corners\<close>







subsection \<open>warp_perspective\<close>

definition warp_perspective :: "cv2 \<Rightarrow> image \<Rightarrow> point list \<Rightarrow> error + image" where
  "warp_perspective cv img pts =
     (case four_point_transform img pts of
        Inl e \<Rightarrow> Inl e
      | Inr (dst, ordered) \<Rightarrow>
          let w = py_int (fst (dst ! 2)) + 1;
              h = py_int (snd (dst ! 2)) + 1;
              M = getPerspectiveTransform cv ordered dst
          in Inr (warpPerspective cv img M (w, h)))"

subsection \<open>The enhancement stages\<close>

definition apply_denoise :: "cv2 \<Rightarrow> image \<Rightarrow> real \<Rightarrow> image" where
  "apply_denoise cv img strength =
     (let template = max 3 (min 7 (py_int strength));
          search = template * 2 + 1
      in fastNlMeansDenoisingColored cv img strength strength template search)"

definition apply_clahe :: "cv2 \<Rightarrow> image \<Rightarrow> real \<Rightarrow> error + image" where
  "apply_clahe cv img clip_limit =
     (let lab = cvtColor cv img COLOR_BGR2LAB
      in case split_channels cv lab of
           [l, a, b] \<Rightarrow>
             let l = clahe_apply cv clip_limit (8, 8) l;
                 lab = merge_channels cv [l, a, b]
             in Inr (cvtColor cv lab COLOR_LAB2BGR)
         | _ \<Rightarrow> Inl ValueError)"

text \<open>
  Rounding to the nearest integer, ties to the even one, then saturation to \<open>0..255\<close>: how
  a real value is stored into an unsigned byte.
\<close>

definition saturate_u8 :: "real \<Rightarrow> u8" where
  "saturate_u8 x = word_of_int (max 0 (min 255 (round_half_even x)))"

text \<open>
  Modelled from the spec: \<open>cv2.addWeighted\<close>, which is OpenCV's and not in the repository.
  The spec gives the combination of the unsharp mask as
  \<open>output = amount * original + (1 - amount) * blurred\<close>, clamped to the valid pixel range
  per channel; \<open>addWeighted src1 alpha src2 beta gamma\<close> is that combination with the two
  weights and the offset as arguments, element by element. Two arrays of different sizes
  are an error.
\<close>

definition addWeighted :: "image \<Rightarrow> real \<Rightarrow> image \<Rightarrow> real \<Rightarrow> real \<Rightarrow> error + image" where
  "addWeighted src1 alpha src2 beta gamma =
     (if rows src1 = rows src2 \<and> cols src1 = cols src2 \<and> length (data src1) = length (data src2)
      then Inr (src1\<lparr>data :=
                  map2 (\<lambda>a b. saturate_u8 (of_int (uint a) * alpha + of_int (uint b) * beta + gamma))
                    (data src1) (data src2)\<rparr>)
      else Inl CvError)"

text \<open>\<open>np.clip(a, 0, 255).astype(np.uint8)\<close> on an array of unsigned bytes.\<close>

definition clip_u8 :: "image \<Rightarrow> image" where
  "clip_u8 img = img\<lparr>data := map (\<lambda>v. max 0 (min 255 v)) (data img)\<rparr>"

definition apply_sharpen :: "cv2 \<Rightarrow> image \<Rightarrow> real \<Rightarrow> real \<Rightarrow> error + image" where
  "apply_sharpen cv img amount sigma =
     (let blurred = GaussianBlur cv img (0, 0) sigma
      in case addWeighted img amount blurred (1 - amount) 0 of
           Inl e \<Rightarrow> Inl e
         | Inr sharpened \<Rightarrow> Inr (clip_u8 sharpened))"

text \<open>
  The three lines that the two branches of \<open>clamp_size\<close> share:
  \<open>scale = allowed / current_max\<close>, \<open>new_w = int(w * scale)\<close>, \<open>new_h = int(h * scale)\<close>, in
  \<open>float64\<close>. The division raises \<open>ZeroDivisionError\<close> when the image has no pixels.
\<close>

definition scaled_size :: "int \<Rightarrow> int \<Rightarrow> int \<Rightarrow> error + int \<times> int" where
  "scaled_size w h allowed =
     (case py_truediv allowed (max h w) of Inl e \<Rightarrow> Inl e | Inr scale \<Rightarrow>
      case py_float w of Inl e \<Rightarrow> Inl e | Inr float_w \<Rightarrow>
      case int_of_f64 (f64 (float_w * scale)) of Inl e \<Rightarrow> Inl e | Inr new_w \<Rightarrow>
      case py_float h of Inl e \<Rightarrow> Inl e | Inr float_h \<Rightarrow>
      case int_of_f64 (f64 (float_h * scale)) of Inl e \<Rightarrow> Inl e | Inr new_h \<Rightarrow>
        Inr (new_w, new_h))"

text \<open>\<open>int(ref_max_dim * factor)\<close>: the integer is converted to a float, the product rounded.\<close>

definition allowed_dim :: "int \<Rightarrow> real \<Rightarrow> error + int" where
  "allowed_dim ref_max_dim factor =
     (case py_float ref_max_dim of Inl e \<Rightarrow> Inl e | Inr float_ref \<Rightarrow>
        int_of_f64 (f64 (float_ref * factor)))"

definition clamp_size :: "cv2 \<Rightarrow> image \<Rightarrow> int \<Rightarrow> real \<Rightarrow> real \<Rightarrow> error + image" where
  "clamp_size cv img ref_max_dim max_scale_factor min_scale_factor =
     (let h = rows img; w = cols img;
          current_max = max h w
      in case allowed_dim ref_max_dim max_scale_factor of Inl e \<Rightarrow> Inl e | Inr max_allowed \<Rightarrow>
         case allowed_dim ref_max_dim min_scale_factor of Inl e \<Rightarrow> Inl e | Inr min_allowed \<Rightarrow>
           if current_max > max_allowed then
             (case scaled_size w h max_allowed of
                Inl e \<Rightarrow> Inl e
              | Inr (new_w, new_h) \<Rightarrow> resize cv img (new_w, new_h) INTER_AREA)
           else if current_max < min_allowed then
             (case scaled_size w h min_allowed of
                Inl e \<Rightarrow> Inl e
              | Inr (new_w, new_h) \<Rightarrow> resize cv img (new_w, new_h) INTER_CUBIC)
           else Inr img)"

subsection \<open>full_pipeline\<close>

text \<open>
  \<open>ref_max_dim or max(img.shape[:2])\<close>: the reference is the argument unless it is \<open>None\<close>
  or \<open>0\<close>. \<open>apply_sharpen\<close> is called with its default \<open>sigma = 5.0\<close>.
\<close>

definition full_pipeline ::
  "cv2 \<Rightarrow> image \<Rightarrow> point list \<Rightarrow> bool \<Rightarrow> real \<Rightarrow> bool \<Rightarrow> real \<Rightarrow> bool \<Rightarrow> real \<Rightarrow> bool \<Rightarrow>
   int option \<Rightarrow> real \<Rightarrow> real \<Rightarrow> error + image" where
  "full_pipeline cv img pts denoise denoise_strength clahe clahe_clip sharpen sharpen_amount
     clamp_enabled ref_max_dim max_scale_factor min_scale_factor =
     (case warp_perspective cv img pts of
        Inl e \<Rightarrow> Inl e
      | Inr result \<Rightarrow>
          let ref = (case ref_max_dim of
                       None \<Rightarrow> max (rows img) (cols img)
                     | Some r \<Rightarrow> if r = 0 then max (rows img) (cols img) else r);
              result = (if denoise then apply_denoise cv result denoise_strength else result)
          in case (if clahe then apply_clahe cv result clahe_clip else Inr result) of
               Inl e \<Rightarrow> Inl e
             | Inr result \<Rightarrow>
                 (case (if sharpen then apply_sharpen cv result sharpen_amount 5 else Inr result) of
                    Inl e \<Rightarrow> Inl e
                  | Inr result \<Rightarrow>
                      if clamp_enabled
                      then clamp_size cv result ref max_scale_factor min_scale_factor
                      else Inr result))"

subsection \<open>get_display_image\<close>

definition get_display_image :: "cv2 \<Rightarrow> image \<Rightarrow> int \<Rightarrow> error + image" where
  "get_display_image cv img max_dim =
     (let h = rows img; w = cols img in
      if max h w \<le> max_dim then Inr img
      else
        case scaled_size w h max_dim of
          Inl e \<Rightarrow> Inl e
        | Inr (new_w, new_h) \<Rightarrow> resize cv img (new_w, new_h) INTER_AREA)"

section \<open>Vocabulary for the properties\<close>

text \<open>
  A stand-in for OpenCV on which the definitions can be evaluated: every call that
  produces an image allocates a black buffer, of the size of its input or of the size it
  is asked for, and the contour search finds nothing. As in OpenCV, \<open>warpPerspective\<close>
  allocates the size of the source when the \<open>dsize\<close> is empty (a width or a height that is
  not positive), and \<open>resize\<close> fails on an empty \<open>dsize\<close> and on an empty source.
\<close>

definition black :: "int \<Rightarrow> int \<Rightarrow> image" where
  "black w h = \<lparr>rows = h, cols = w, data = replicate (nat (h * w * 3)) 0\<rparr>"

definition black_cv2 :: cv2 where
  "black_cv2 =
     \<lparr>resize = (\<lambda>img dsize interp.
         if 0 < fst dsize \<and> 0 < snd dsize \<and> 0 < cols img \<and> 0 < rows img
         then Inr (black (fst dsize) (snd dsize)) else Inl CvError),
      resize_by = (\<lambda>img fx fy. black (py_int (of_int (cols img) * fx)) (py_int (of_int (rows img) * fy))),
      cvtColor = (\<lambda>img code. black (cols img) (rows img)),
      GaussianBlur = (\<lambda>img ksize sigma. black (cols img) (rows img)),
      Canny = (\<lambda>img t1 t2. black (cols img) (rows img)),
      dilate = (\<lambda>img iterations. black (cols img) (rows img)),
      findContours = (\<lambda>img. []),
      contourArea = (\<lambda>cnt. 0),
      arcLength = (\<lambda>cnt closed. 0),
      approxPolyDP = (\<lambda>cnt eps closed. cnt),
      getPerspectiveTransform = (\<lambda>src dst. [1, 0, 0] # [0, 1, 0] # [0, 0, 1] # []),
      warpPerspective = (\<lambda>img M dsize.
         if 0 < fst dsize \<and> 0 < snd dsize then black (fst dsize) (snd dsize)
         else black (cols img) (rows img)),
      fastNlMeansDenoisingColored = (\<lambda>img h hColor template search. black (cols img) (rows img)),
      split_channels = (\<lambda>img. [black (cols img) (rows img), black (cols img) (rows img),
                                black (cols img) (rows img)]),
      merge_channels = (\<lambda>chs. case chs of [] \<Rightarrow> black 0 0 | c # _ \<Rightarrow> black (cols c) (rows c)),
      clahe_apply = (\<lambda>clip grid img. black (cols img) (rows img))\<rparr>"

text \<open>
  What the properties below assume of \<open>cv2.warpPerspective\<close>, called on an image with at
  least one pixel with a matrix that \<open>cv2.getPerspectiveTransform\<close> returned: the image
  returned has the \<open>dsize\<close> it is given, and the size of the source image when the \<open>dsize\<close>
  is empty (a width or a height that is not positive). \<open>side_limit\<close> is the largest width and
  height that the build of OpenCV at hand handles; nothing is assumed of a call with a
  larger source or \<open>dsize\<close>.
\<close>

definition opencv_warp_size :: "cv2 \<Rightarrow> int \<Rightarrow> bool" where
  "opencv_warp_size cv side_limit =
     (\<forall>img src dst w h.
        1 \<le> cols img \<and> cols img \<le> side_limit \<and> 1 \<le> rows img \<and> rows img \<le> side_limit \<and>
        0 \<le> w \<and> w \<le> side_limit \<and> 0 \<le> h \<and> h \<le> side_limit \<longrightarrow>
        cols (warpPerspective cv img (getPerspectiveTransform cv src dst) (w, h)) =
          (if 0 < w \<and> 0 < h then w else cols img) \<and>
        rows (warpPerspective cv img (getPerspectiveTransform cv src dst) (w, h)) =
          (if 0 < w \<and> 0 < h then h else rows img))"




subsection \<open>The extremes of a list of points\<close>

text \<open>
  A point of \<open>pts\<close> attains the minimum (maximum) of a key when no point of \<open>pts\<close> has a
  smaller (larger) key. The extreme is unique when all the points attaining it are the
  same point.
\<close>

definition attains_min :: "(point \<Rightarrow> real) \<Rightarrow> point list \<Rightarrow> point \<Rightarrow> bool" where
  "attains_min f pts p = (p \<in> set pts \<and> list_all (\<lambda>q. f p \<le> f q) pts)"

definition attains_max :: "(point \<Rightarrow> real) \<Rightarrow> point list \<Rightarrow> point \<Rightarrow> bool" where
  "attains_max f pts p = (p \<in> set pts \<and> list_all (\<lambda>q. f q \<le> f p) pts)"

definition unique_min :: "(point \<Rightarrow> real) \<Rightarrow> point list \<Rightarrow> bool" where
  "unique_min f pts =
     list_all (\<lambda>p. list_all (\<lambda>q. attains_min f pts p \<and> attains_min f pts q \<longrightarrow> p = q) pts) pts"

definition unique_max :: "(point \<Rightarrow> real) \<Rightarrow> point list \<Rightarrow> bool" where
  "unique_max f pts =
     list_all (\<lambda>p. list_all (\<lambda>q. attains_max f pts p \<and> attains_max f pts q \<longrightarrow> p = q) pts) pts"

text \<open>
  The inputs on which the four picks of \<open>order_points\<close> do not depend on the position of
  the points in the array: no two different points tie for an extreme of the keys that
  the function compares, the \<open>float32\<close> sums and differences.
\<close>

definition unique_extremes :: "point list \<Rightarrow> bool" where
  "unique_extremes pts =
     (unique_min row_sum pts \<and> unique_max row_sum pts \<and>
      unique_min row_diff pts \<and> unique_max row_diff pts)"

text \<open>The difference \<open>x - y\<close> in \<open>float32\<close>, the opposite of the one \<open>np.diff\<close> computes.\<close>

definition x_minus_y :: "point \<Rightarrow> real" where
  "x_minus_y p = f32 (fst p - snd p)"

text \<open>The four row indices that \<open>order_points\<close> reads, in the order of the slots of \<open>rect\<close>.\<close>

definition picks :: "point list \<Rightarrow> nat list" where
  "picks pts =
     [argmin (sum_axis1 pts), argmin (diff_axis1 pts),
      argmax (sum_axis1 pts), argmax (diff_axis1 pts)]"

text \<open>
  Row \<open>i\<close> is the first row of \<open>pts\<close> whose key is the minimum (maximum) of the keys.
\<close>

definition first_min_row :: "(point \<Rightarrow> real) \<Rightarrow> point list \<Rightarrow> nat \<Rightarrow> bool" where
  "first_min_row f pts i =
     (i < length pts \<and> (\<forall>j<length pts. f (pts ! i) \<le> f (pts ! j)) \<and> (\<forall>j<i. f (pts ! i) < f (pts ! j)))"

definition first_max_row :: "(point \<Rightarrow> real) \<Rightarrow> point list \<Rightarrow> nat \<Rightarrow> bool" where
  "first_max_row f pts i =
     (i < length pts \<and> (\<forall>j<length pts. f (pts ! j) \<le> f (pts ! i)) \<and> (\<forall>j<i. f (pts ! j) < f (pts ! i)))"

text \<open>
  A quadrilateral \<open>a b c d\<close>, its corners taken in cyclic order, is strictly convex when it
  turns the same way at every corner.
\<close>

definition cross :: "point \<Rightarrow> point \<Rightarrow> point \<Rightarrow> real" where
  "cross a b c = (fst b - fst a) * (snd c - snd b) - (snd b - snd a) * (fst c - fst b)"

definition convex_quad :: "point list \<Rightarrow> bool" where
  "convex_quad q =
     (case q of
        [a, b, c, d] \<Rightarrow>
          (0 < cross a b c \<and> 0 < cross b c d \<and> 0 < cross c d a \<and> 0 < cross d a b) \<or>
          (cross a b c < 0 \<and> cross b c d < 0 \<and> cross c d a < 0 \<and> cross d a b < 0)
      | _ \<Rightarrow> False)"

section \<open>Floating-point rounding\<close>

lemma round_half_even_of_int: "round_half_even (of_int n) = n"
  by (simp add: round_half_even_def Let_def)



lemma round_half_even_nonneg:
  assumes "0 \<le> y"
  shows "0 \<le> round_half_even y"
proof -
  have "0 \<le> \<lfloor>y\<rfloor>" using assms by simp
  then show ?thesis
    unfolding round_half_even_def Let_def by auto
qed


lemma floor_log2_less:
  assumes "x \<noteq> 0" and "\<bar>x\<bar> < 2 powr of_int n"
  shows "\<lfloor>log 2 \<bar>x\<bar>\<rfloor> < n"
proof -
  have "log 2 \<bar>x\<bar> < of_int n"
    using assms by (simp add: log_less_iff)
  then show ?thesis by (simp add: floor_less_iff)
qed



lemma round_float_exact:
  assumes x: "x = of_int m * 2 powr of_int k" and m: "\<bar>m\<bar> < 2 ^ p" and k: "emin - int p + 1 \<le> k"
  shows "round_float p emin x = x"
proof (cases "x = 0")
  case True
  then show ?thesis by (simp add: round_float_def)
next
  case False
  define j where "j = max \<lfloor>log 2 \<bar>x\<bar>\<rfloor> emin - int p + 1"
  have "\<bar>x\<bar> = of_int \<bar>m\<bar> * 2 powr of_int k"
    by (simp add: x abs_mult)
  also have "\<dots> < 2 ^ p * 2 powr of_int k"
  proof -
    have "(of_int \<bar>m\<bar> :: real) < of_int (2 ^ p)"
      using m by (simp only: of_int_less_iff)
    then show ?thesis by (simp add: mult_strict_right_mono)
  qed
  also have "\<dots> = 2 powr of_int (int p + k)"
    by (simp add: powr_add powr_realpow)
  finally have "\<lfloor>log 2 \<bar>x\<bar>\<rfloor> < int p + k"
    using False by (intro floor_log2_less)
  then have jk: "j \<le> k"
    using k by (simp add: j_def max_def)
  have "x / 2 powr of_int j = of_int m * 2 powr of_int (k - j)"
    by (simp add: x powr_diff)
  also have "2 powr of_int (k - j) = (2 :: real) ^ nat (k - j)"
    using jk by (simp add: powr_realpow [symmetric])
  finally have d: "x / 2 powr of_int j = of_int (m * 2 ^ nat (k - j))"
    by simp
  have "of_int (round_half_even (x / 2 powr of_int j)) * 2 powr of_int j = x / 2 powr of_int j * 2 powr of_int j"
    by (simp only: d round_half_even_of_int)
  also have "\<dots> = x" by simp
  finally show ?thesis
    using False by (simp add: round_float_def Let_def j_def)
qed


lemma round_float_nonneg:
  assumes "0 \<le> x"
  shows "0 \<le> round_float p emin x"
proof -
  have "0 \<le> round_half_even (x / q)" if "0 < q" for q
    using assms that by (intro round_half_even_nonneg) simp
  then show ?thesis
    by (simp add: round_float_def Let_def)
qed

lemma f32_exact:
  assumes "x = of_int m * 2 powr of_int k" and "\<bar>m\<bar> < 2 ^ 24" and "- 149 \<le> k" and "\<bar>x\<bar> < 2 ^ 128"
  shows "f32 x = x"
proof -
  have "round_float 24 (- 126) x = x"
    using assms(1,2,3) by (intro round_float_exact [where m = m and k = k]) simp_all
  with assms(4) show ?thesis by (simp add: f32_def)
qed

lemma f32_of_int:
  assumes "\<bar>n\<bar> \<le> 2 ^ 24"
  shows "f32 (of_int n) = of_int n"
proof (cases "\<bar>n\<bar> < 2 ^ 24")
  case True
  have "\<bar>real_of_int n\<bar> < 2 ^ 128"
  proof -
    have "real_of_int \<bar>n\<bar> < of_int (2 ^ 24)"
      using True by (simp only: of_int_less_iff)
    then have "\<bar>real_of_int n\<bar> < 2 ^ 24" by simp
    also have "(2 :: real) ^ 24 < 2 ^ 128" by simp
    finally show ?thesis .
  qed
  then show ?thesis
    using True by (intro f32_exact [where m = n and k = 0]) simp_all
next
  case False
  with assms have "n = 2 ^ 24 \<or> n = - (2 ^ 24)" by linarith
  then show ?thesis
  proof
    assume "n = 2 ^ 24"
    then show ?thesis by (intro f32_exact [where m = "2 ^ 23" and k = 1]) simp_all
  next
    assume "n = - (2 ^ 24)"
    then show ?thesis by (intro f32_exact [where m = "- (2 ^ 23)" and k = 1]) simp_all
  qed
qed

lemma f32_zero: "f32 0 = 0"
  using f32_of_int [of 0] by simp

lemma f32_one: "f32 1 = 1"
  using f32_of_int [of 1] by simp

lemma f32_numeral: "numeral w \<le> (16777216 :: int) \<Longrightarrow> f32 (numeral w) = numeral w"
  using f32_of_int [of "numeral w"] by simp

lemma f32_neg_numeral: "numeral w \<le> (16777216 :: int) \<Longrightarrow> f32 (- numeral w) = - numeral w"
  using f32_of_int [of "- numeral w"] by simp

lemma f32_neg_one: "f32 (- 1) = - 1"
  using f32_of_int [of "- 1"] by simp

lemmas f32_int = f32_zero f32_one f32_neg_one f32_numeral f32_neg_numeral

lemma f32_nonneg:
  assumes "0 \<le> x"
  shows "0 \<le> f32 x"
proof -
  have "0 \<le> round_float 24 (- 126) x"
    using assms by (rule round_float_nonneg)
  moreover have "\<not> 0 < x \<longrightarrow> x = 0" using assms by simp
  ultimately show ?thesis
    by (auto simp add: f32_def Let_def round_float_def)
qed

lemma f32_sqrt_nonneg: "0 \<le> x \<Longrightarrow> 0 \<le> f32_sqrt x"
  by (simp add: f32_sqrt_def f32_nonneg)

section \<open>The ordering of the corners\<close>

lemma first_index_props:
  "\<exists>x\<in>set xs. P x \<Longrightarrow> first_index P xs < length xs \<and> P (xs ! first_index P xs)"
  by (induction xs) auto

lemma first_index_least: "j < first_index P xs \<Longrightarrow> \<not> P (xs ! j)"
proof (induction xs arbitrary: j)
  case Nil
  then show ?case by simp
next
  case (Cons x xs)
  then show ?case by (cases j) (auto split: if_splits)
qed

lemma argmin_map:
  assumes "pts \<noteq> []"
  shows "argmin (map f pts) < length pts \<and> f (pts ! argmin (map f pts)) = Min (f ` set pts)"
proof -
  have "Min (set (map f pts)) \<in> set (map f pts)"
    using assms by (intro Min_in) auto
  then have "\<exists>x\<in>set (map f pts). x = Min (set (map f pts))"
    by blast
  from first_index_props [OF this]
  have "argmin (map f pts) < length (map f pts)"
    and "map f pts ! argmin (map f pts) = Min (set (map f pts))"
    by (simp_all add: argmin_def)
  then show ?thesis by simp
qed

lemma argmax_map:
  assumes "pts \<noteq> []"
  shows "argmax (map f pts) < length pts \<and> f (pts ! argmax (map f pts)) = Max (f ` set pts)"
proof -
  have "Max (set (map f pts)) \<in> set (map f pts)"
    using assms by (intro Max_in) auto
  then have "\<exists>x\<in>set (map f pts). x = Max (set (map f pts))"
    by blast
  from first_index_props [OF this]
  have "argmax (map f pts) < length (map f pts)"
    and "map f pts ! argmax (map f pts) = Max (set (map f pts))"
    by (simp_all add: argmax_def)
  then show ?thesis by simp
qed

lemma attains_min_iff:
  "attains_min f pts p \<longleftrightarrow> p \<in> set pts \<and> f p = Min (f ` set pts)"
proof
  assume a: "attains_min f pts p"
  then have "p \<in> set pts" and "\<forall>q\<in>set pts. f p \<le> f q"
    by (simp_all add: attains_min_def list_all_iff)
  then have "Min (f ` set pts) = f p"
    by (intro Min_eqI) auto
  with \<open>p \<in> set pts\<close> show "p \<in> set pts \<and> f p = Min (f ` set pts)" by simp
next
  assume "p \<in> set pts \<and> f p = Min (f ` set pts)"
  then show "attains_min f pts p"
    by (simp add: attains_min_def list_all_iff)
qed

lemma attains_max_iff:
  "attains_max f pts p \<longleftrightarrow> p \<in> set pts \<and> f p = Max (f ` set pts)"
proof
  assume a: "attains_max f pts p"
  then have "p \<in> set pts" and "\<forall>q\<in>set pts. f q \<le> f p"
    by (simp_all add: attains_max_def list_all_iff)
  then have "Max (f ` set pts) = f p"
    by (intro Max_eqI) auto
  with \<open>p \<in> set pts\<close> show "p \<in> set pts \<and> f p = Max (f ` set pts)" by simp
next
  assume "p \<in> set pts \<and> f p = Max (f ` set pts)"
  then show "attains_max f pts p"
    by (simp add: attains_max_def list_all_iff)
qed

lemma pick_min: "pts \<noteq> [] \<Longrightarrow> attains_min f pts (pts ! argmin (map f pts))"
  using argmin_map [of pts f] by (simp add: attains_min_iff)

lemma pick_max: "pts \<noteq> [] \<Longrightarrow> attains_max f pts (pts ! argmax (map f pts))"
  using argmax_map [of pts f] by (simp add: attains_max_iff)

lemma order_points_Inr:
  "pts \<noteq> [] \<Longrightarrow>
   order_points pts =
     Inr [pts ! argmin (map row_sum pts), pts ! argmin (map row_diff pts),
          pts ! argmax (map row_sum pts), pts ! argmax (map row_diff pts)]"
  by (simp add: order_points_def sum_axis1_def diff_axis1_def Let_def)

lemma unique_minD:
  "unique_min f pts \<Longrightarrow> attains_min f pts p \<Longrightarrow> attains_min f pts q \<Longrightarrow> p = q"
  by (auto simp: unique_min_def list_all_iff attains_min_def)

lemma unique_maxD:
  "unique_max f pts \<Longrightarrow> attains_max f pts p \<Longrightarrow> attains_max f pts q \<Longrightarrow> p = q"
  by (auto simp: unique_max_def list_all_iff attains_max_def)

lemma pick_min_set:
  assumes "unique_min f ps" "set qs = set ps" "ps \<noteq> []"
  shows "qs ! argmin (map f qs) = ps ! argmin (map f ps)"
proof -
  from assms have "qs \<noteq> []" by auto
  then have "attains_min f qs (qs ! argmin (map f qs))" by (rule pick_min)
  then have "attains_min f ps (qs ! argmin (map f qs))"
    using assms(2) by (simp add: attains_min_iff)
  moreover have "attains_min f ps (ps ! argmin (map f ps))"
    using assms(3) by (rule pick_min)
  ultimately show ?thesis using assms(1) by (rule unique_minD [rotated])
qed

lemma pick_max_set:
  assumes "unique_max f ps" "set qs = set ps" "ps \<noteq> []"
  shows "qs ! argmax (map f qs) = ps ! argmax (map f ps)"
proof -
  from assms have "qs \<noteq> []" by auto
  then have "attains_max f qs (qs ! argmax (map f qs))" by (rule pick_max)
  then have "attains_max f ps (qs ! argmax (map f qs))"
    using assms(2) by (simp add: attains_max_iff)
  moreover have "attains_max f ps (ps ! argmax (map f ps))"
    using assms(3) by (rule pick_max)
  ultimately show ?thesis using assms(1) by (rule unique_maxD [rotated])
qed

lemma pick_min_sub:
  assumes "unique_min f ps" "set r \<subseteq> set ps" "p \<in> set r" "attains_min f ps p"
  shows "r ! argmin (map f r) = p"
proof -
  let ?q = "r ! argmin (map f r)"
  from assms(3) have "r \<noteq> []" by auto
  then have q: "attains_min f r ?q" by (rule pick_min)
  then have "?q \<in> set ps" and "f ?q \<le> f p"
    using assms(2,3) by (auto simp: attains_min_def list_all_iff)
  moreover have "\<forall>x\<in>set ps. f p \<le> f x"
    using assms(4) by (simp add: attains_min_def list_all_iff)
  ultimately have "attains_min f ps ?q"
    by (fastforce simp: attains_min_def list_all_iff)
  with assms(1) show ?thesis using assms(4) by (rule unique_minD)
qed

lemma pick_max_sub:
  assumes "unique_max f ps" "set r \<subseteq> set ps" "p \<in> set r" "attains_max f ps p"
  shows "r ! argmax (map f r) = p"
proof -
  let ?q = "r ! argmax (map f r)"
  from assms(3) have "r \<noteq> []" by auto
  then have q: "attains_max f r ?q" by (rule pick_max)
  then have "?q \<in> set ps" and "f p \<le> f ?q"
    using assms(2,3) by (auto simp: attains_max_def list_all_iff)
  moreover have "\<forall>x\<in>set ps. f x \<le> f p"
    using assms(4) by (simp add: attains_max_def list_all_iff)
  ultimately have "attains_max f ps ?q"
    by (fastforce simp: attains_max_def list_all_iff)
  with assms(1) show ?thesis using assms(4) by (rule unique_maxD)
qed

lemma order_points_fixed:
  assumes "unique_extremes ps" "ps \<noteq> []" "order_points ps = Inr r"
  shows "order_points r = Inr r"
proof -
  define top_l where "top_l = ps ! argmin (map row_sum ps)"
  define top_r where "top_r = ps ! argmin (map row_diff ps)"
  define bot_r where "bot_r = ps ! argmax (map row_sum ps)"
  define bot_l where "bot_l = ps ! argmax (map row_diff ps)"
  have r: "r = [top_l, top_r, bot_r, bot_l]"
    using assms(2,3) by (simp add: order_points_Inr top_l_def top_r_def bot_r_def bot_l_def)
  have a: "attains_min row_sum ps top_l" "attains_min row_diff ps top_r"
    "attains_max row_sum ps bot_r" "attains_max row_diff ps bot_l"
    using assms(2) by (simp_all add: top_l_def top_r_def bot_r_def bot_l_def pick_min pick_max)
  then have sub: "set r \<subseteq> set ps"
    by (simp add: r attains_min_def attains_max_def)
  have u: "unique_min row_sum ps" "unique_min row_diff ps"
    "unique_max row_sum ps" "unique_max row_diff ps"
    using assms(1) by (simp_all add: unique_extremes_def)
  have "r ! argmin (map row_sum r) = top_l"
    by (rule pick_min_sub [OF u(1) sub _ a(1)]) (simp add: r)
  moreover have "r ! argmin (map row_diff r) = top_r"
    by (rule pick_min_sub [OF u(2) sub _ a(2)]) (simp add: r)
  moreover have "r ! argmax (map row_sum r) = bot_r"
    by (rule pick_max_sub [OF u(3) sub _ a(3)]) (simp add: r)
  moreover have "r ! argmax (map row_diff r) = bot_l"
    by (rule pick_max_sub [OF u(4) sub _ a(4)]) (simp add: r)
  moreover have "r \<noteq> []" by (simp add: r)
  ultimately have "order_points r = Inr [top_l, top_r, bot_r, bot_l]"
    by (simp add: order_points_Inr)
  then show ?thesis by (simp add: r)
qed

lemma order_points_set:
  assumes "unique_extremes ps" "set qs = set ps" "ps \<noteq> []"
  shows "order_points qs = order_points ps"
proof -
  from assms have "qs \<noteq> []" by auto
  then show ?thesis
    using assms
    by (simp add: order_points_Inr unique_extremes_def pick_min_set pick_max_set)
qed

lemmas order_points_eval =
  order_points_def sum_axis1_def diff_axis1_def argmin_def argmax_def row_sum_def row_diff_def
  attains_min_def attains_max_def f32_int

lemma order_points_picks:
  "pts \<noteq> [] \<Longrightarrow> order_points pts = Inr (map ((!) pts) (picks pts))"
  by (simp add: order_points_def picks_def Let_def)

lemma picks_bound: "pts \<noteq> [] \<Longrightarrow> \<forall>i\<in>set (picks pts). i < length pts"
  using argmin_map [of pts row_sum] argmin_map [of pts row_diff]
    argmax_map [of pts row_sum] argmax_map [of pts row_diff]
  by (simp add: picks_def sum_axis1_def diff_axis1_def)

lemma length_picks: "length (picks pts) = 4"
  by (simp add: picks_def)

lemma unpicked_index:
  assumes "length pts = 4" and "\<not> distinct (picks pts)"
  shows "\<exists>i<length pts. i \<notin> set (picks pts)"
proof (rule ccontr)
  assume "\<not> (\<exists>i<length pts. i \<notin> set (picks pts))"
  then have "{..<4} \<subseteq> set (picks pts)"
    using assms(1) by auto
  then have "card {..<4::nat} \<le> card (set (picks pts))"
    by (intro card_mono) auto
  then have "4 \<le> card (set (picks pts))" by simp
  moreover have "card (set (picks pts)) \<le> length (picks pts)"
    by (rule card_length)
  ultimately have "card (set (picks pts)) = length (picks pts)"
    by (simp add: length_picks)
  then have "distinct (picks pts)" by (rule card_distinct)
  with assms(2) show False by simp
qed

lemma first_min_row_argmin:
  assumes "pts \<noteq> []"
  shows "first_min_row f pts (argmin (map f pts))"
proof -
  let ?ks = "map f pts"
  let ?i = "argmin ?ks"
  from argmin_map [OF assms, of f]
  have i: "?i < length pts" and m: "f (pts ! ?i) = Min (f ` set pts)" by simp_all
  have le: "f (pts ! ?i) \<le> f (pts ! j)" if "j < length pts" for j
    using that by (simp add: m)
  have less: "f (pts ! ?i) < f (pts ! j)" if "j < ?i" for j
  proof -
    from that i have j: "j < length pts" by simp
    from that have "?ks ! j \<noteq> Min (set ?ks)"
      unfolding argmin_def by (rule first_index_least)
    with j m have "f (pts ! j) \<noteq> f (pts ! ?i)" by simp
    with le [OF j] show ?thesis by simp
  qed
  from i le less show ?thesis by (simp add: first_min_row_def)
qed

lemma first_max_row_argmax:
  assumes "pts \<noteq> []"
  shows "first_max_row f pts (argmax (map f pts))"
proof -
  let ?ks = "map f pts"
  let ?i = "argmax ?ks"
  from argmax_map [OF assms, of f]
  have i: "?i < length pts" and m: "f (pts ! ?i) = Max (f ` set pts)" by simp_all
  have le: "f (pts ! j) \<le> f (pts ! ?i)" if "j < length pts" for j
    using that by (simp add: m)
  have less: "f (pts ! j) < f (pts ! ?i)" if "j < ?i" for j
  proof -
    from that i have j: "j < length pts" by simp
    from that have "?ks ! j \<noteq> Max (set ?ks)"
      unfolding argmax_def by (rule first_index_least)
    with j m have "f (pts ! j) \<noteq> f (pts ! ?i)" by simp
    with le [OF j] show ?thesis by simp
  qed
  from i le less show ?thesis by (simp add: first_max_row_def)
qed

lemma mset_map_nth_distinct:
  assumes "distinct is" and "length is = length xs" and "\<forall>i\<in>set is. i < length xs"
  shows "mset (map ((!) xs) is) = mset xs"
proof -
  have "set is \<subseteq> {..<length xs}" using assms(3) by auto
  moreover have "card (set is) = card {..<length xs}"
    using assms(1,2) by (simp add: distinct_card)
  ultimately have "set is = {..<length xs}"
    by (intro card_subset_eq) simp_all
  then have "set is = {0..<length xs}" by (simp add: lessThan_atLeast0)
  moreover have "mset is = mset_set (set is)"
    using assms(1) by (simp add: mset_set_set)
  ultimately have "mset is = mset [0..<length xs]"
    by simp
  then have "mset (map ((!) xs) is) = mset (map ((!) xs) [0..<length xs])"
    by (simp only: mset_map)
  then show ?thesis by (simp add: map_nth)
qed

subsection \<open>The four extremes\<close>

text \<open>
  C1, as the specification states it, with the difference \<open>x - y\<close>: on the upright square
  \<open>(0,0), (10,0), (10,10), (0,10)\<close> the point returned as top-right is \<open>(10,0)\<close>, which has
  the largest \<open>x - y\<close> of the four, not the smallest.
\<close>

theorem order_points_x_minus_y_counterexample:
  "order_points [(0, 0), (10, 0), (10, 10), (0, 10)] = Inr [(0, 0), (10, 0), (10, 10), (0, 10)] \<and>
   \<not> attains_min x_minus_y [(0, 0), (10, 0), (10, 10), (0, 10)] (10, 0) \<and>
   attains_max x_minus_y [(0, 0), (10, 0), (10, 10), (0, 10)] (10, 0)"
  by (simp add: order_points_eval x_minus_y_def)

text \<open>
  C1, amended: for every four points, \<open>order_points\<close> compares the sums \<open>x + y\<close> and the
  differences \<open>y - x\<close> of the rows as it computes them, in \<open>float32\<close>. It returns as
  top-left a point with the minimum sum, as bottom-right a point with the maximum sum, as
  top-right a point with the minimum of \<open>y - x\<close> and as bottom-left a point with the maximum
  of \<open>y - x\<close>.
\<close>

theorem order_points_extremes:
  assumes "length pts = 4"
  shows "\<exists>top_l top_r bot_r bot_l.
           order_points pts = Inr [top_l, top_r, bot_r, bot_l] \<and>
           attains_min (\<lambda>p. f32 (fst p + snd p)) pts top_l \<and>
           attains_max (\<lambda>p. f32 (fst p + snd p)) pts bot_r \<and>
           attains_min (\<lambda>p. f32 (snd p - fst p)) pts top_r \<and>
           attains_max (\<lambda>p. f32 (snd p - fst p)) pts bot_l"
proof -
  have s: "(\<lambda>p. f32 (fst p + snd p)) = row_sum" and d: "(\<lambda>p. f32 (snd p - fst p)) = row_diff"
    by (simp_all add: fun_eq_iff row_sum_def row_diff_def)
  from assms have "pts \<noteq> []" by auto
  then show ?thesis
    unfolding s d by (simp add: order_points_Inr pick_min pick_max)
qed

theorem order_points_extremes_witness:
  "length ([(0, 0), (10, 0), (10, 10), (0, 10)] :: point list) = 4 \<and>
   (\<exists>top_l top_r bot_r bot_l.
      order_points [(0, 0), (10, 0), (10, 10), (0, 10)] = Inr [top_l, top_r, bot_r, bot_l] \<and>
      attains_min (\<lambda>p. f32 (fst p + snd p)) [(0, 0), (10, 0), (10, 10), (0, 10)] top_l \<and>
      attains_max (\<lambda>p. f32 (fst p + snd p)) [(0, 0), (10, 0), (10, 10), (0, 10)] bot_r \<and>
      attains_min (\<lambda>p. f32 (snd p - fst p)) [(0, 0), (10, 0), (10, 10), (0, 10)] top_r \<and>
      attains_max (\<lambda>p. f32 (snd p - fst p)) [(0, 0), (10, 0), (10, 10), (0, 10)] bot_l)"
proof -
  have "length ([(0, 0), (10, 0), (10, 10), (0, 10)] :: point list) = 4" by simp
  with order_points_extremes [of "[(0, 0), (10, 0), (10, 10), (0, 10)]"]
  show ?thesis by (intro conjI) simp_all
qed

subsection \<open>Failure\<close>

text \<open>
  C6, as the specification states it: an input of three points is not rejected. The call
  returns four points, one of them twice.
\<close>

theorem order_points_three_points_counterexample:
  "length ([(0, 0), (4, 0), (0, 3)] :: point list) \<noteq> 4 \<and>
   order_points [(0, 0), (4, 0), (0, 3)] = Inr [(0, 0), (4, 0), (4, 0), (0, 3)]"
  by (simp add: order_points_eval)

text \<open>
  C6, amended: \<open>order_points\<close> checks nothing. It never raises on four points, nor on any
  other number of points except none; on an array without points it raises the
  \<open>ValueError\<close> of \<open>argmin\<close>. Whenever it returns, it returns four points, each of them a
  point of the input.
\<close>

theorem order_points_raises_only_on_empty:
  "(pts = [] \<longrightarrow> order_points pts = Inl ValueError) \<and>
   (pts \<noteq> [] \<longrightarrow> (\<exists>r. order_points pts = Inr r \<and> length r = 4 \<and> set r \<subseteq> set pts))"
proof (intro conjI impI)
  assume "pts = []"
  then show "order_points pts = Inl ValueError"
    by (simp add: order_points_def)
next
  assume ne: "pts \<noteq> []"
  have "set (map ((!) pts) (picks pts)) \<subseteq> set pts"
    using picks_bound [OF ne] by auto
  then show "\<exists>r. order_points pts = Inr r \<and> length r = 4 \<and> set r \<subseteq> set pts"
    using ne by (simp add: order_points_picks length_picks)
qed

theorem order_points_raises_only_on_empty_witness:
  "order_points [] = Inl ValueError \<and>
   (\<exists>r. order_points [(0, 0), (10, 0), (10, 10), (0, 10)] = Inr r \<and> length r = 4 \<and>
      set r \<subseteq> set [(0, 0), (10, 0), (10, 10), (0, 10)])"
  using order_points_raises_only_on_empty [of "[]"]
    order_points_raises_only_on_empty [of "[(0, 0), (10, 0), (10, 10), (0, 10)]"]
  by simp

subsection \<open>Idempotence and the order of the input\<close>

text \<open>
  C8, as the specification states it: the strictly convex quadrilateral
  \<open>(0,0), (11,-1), (10,0), (0,5)\<close> has two corners with the maximal sum \<open>10\<close>. Given in the
  order \<open>(0,0), (10,0), (11,-1), (0,5)\<close> its corners are returned as
  \<open>(0,0), (11,-1), (10,0), (0,5)\<close>; ordering that result again returns
  \<open>(0,0), (11,-1), (11,-1), (0,5)\<close>. So the output of the second call differs from its
  input, and two orders of the same four corners give two different outputs.
\<close>

theorem order_points_not_idempotent_counterexample:
  "convex_quad [(0, 0), (11, - 1), (10, 0), (0, 5)] \<and>
   order_points [(0, 0), (10, 0), (11, - 1), (0, 5)] = Inr [(0, 0), (11, - 1), (10, 0), (0, 5)] \<and>
   order_points [(0, 0), (11, - 1), (10, 0), (0, 5)] = Inr [(0, 0), (11, - 1), (11, - 1), (0, 5)]"
  by (simp add: order_points_eval convex_quad_def cross_def)

text \<open>
  C8, amended: when no two different points of the four tie for an extreme of the keys
  that \<open>order_points\<close> compares (the minimum and the maximum of the \<open>float32\<close> sums \<open>x + y\<close>
  and of the \<open>float32\<close> differences \<open>y - x\<close> are each attained by one point only),
  \<open>order_points\<close> applied to its own output returns that output, and every permutation of
  the four points gives the same output.
\<close>

theorem order_points_idempotent_unique_extremes:
  assumes "length ps = 4" and "unique_extremes ps"
  shows "(\<exists>r. order_points ps = Inr r \<and> order_points r = Inr r) \<and>
         (\<forall>qs. mset qs = mset ps \<longrightarrow> order_points qs = order_points ps)"
proof
  from assms(1) have ne: "ps \<noteq> []" by auto
  then obtain r where r: "order_points ps = Inr r"
    by (simp add: order_points_Inr)
  with assms(2) ne have "order_points r = Inr r"
    by (rule order_points_fixed)
  with r show "\<exists>r. order_points ps = Inr r \<and> order_points r = Inr r" by blast
  show "\<forall>qs. mset qs = mset ps \<longrightarrow> order_points qs = order_points ps"
  proof (intro allI impI)
    fix qs assume "mset qs = mset ps"
    then have "set qs = set ps" by (rule mset_eq_setD)
    with assms(2) show "order_points qs = order_points ps"
      using ne by (rule order_points_set)
  qed
qed

theorem order_points_idempotent_unique_extremes_witness:
  "length ([(0, 0), (10, 0), (10, 10), (0, 10)] :: point list) = 4 \<and>
   unique_extremes [(0, 0), (10, 0), (10, 10), (0, 10)] \<and>
   (\<exists>r. order_points [(0, 0), (10, 0), (10, 10), (0, 10)] = Inr r \<and> order_points r = Inr r) \<and>
   order_points [(10, 10), (0, 10), (0, 0), (10, 0)] = order_points [(0, 0), (10, 0), (10, 10), (0, 10)]"
proof -
  let ?ps = "[(0, 0), (10, 0), (10, 10), (0, 10)] :: point list"
  let ?qs = "[(10, 10), (0, 10), (0, 0), (10, 0)] :: point list"
  have l: "length ?ps = 4" by simp
  have u: "unique_extremes ?ps"
    by (simp add: unique_extremes_def unique_min_def unique_max_def order_points_eval)
  have m: "mset ?qs = mset ?ps"
    by (simp add: add.commute add.left_commute)
  from order_points_idempotent_unique_extremes [OF l u]
  have a: "\<exists>r. order_points ?ps = Inr r \<and> order_points r = Inr r"
    and b: "\<forall>qs. mset qs = mset ?ps \<longrightarrow> order_points qs = order_points ?ps"
    by blast+
  from b m have "order_points ?qs = order_points ?ps" by blast
  with l u a show ?thesis by blast
qed

subsection \<open>The output is made of input points\<close>

text \<open>
  C10, as the claim states it: in \<open>(0,0), (1,-1), (5,5), (-3,4)\<close> the point \<open>(1,-1)\<close>
  attains the minimum sum (in a tie with \<open>(0,0)\<close>, which comes first) and the minimum
  difference, yet it occupies one slot only: the output is the input, a permutation of
  it, and no point is absent.
\<close>

theorem order_points_tie_counterexample:
  "attains_min row_sum [(0, 0), (1, - 1), (5, 5), (- 3, 4)] (1, - 1) \<and>
   attains_min row_diff [(0, 0), (1, - 1), (5, 5), (- 3, 4)] (1, - 1) \<and>
   order_points [(0, 0), (1, - 1), (5, 5), (- 3, 4)] = Inr [(0, 0), (1, - 1), (5, 5), (- 3, 4)]"
  by (simp add: order_points_eval)

text \<open>
  C10, amended: every point returned by \<open>order_points\<close> is one of the four input points:
  the slots top-left, top-right, bottom-right, bottom-left hold the first row of the input
  with the minimum sum, the minimum difference, the maximum sum and the maximum
  difference (in \<open>float32\<close>). The output is a permutation of the input when four different
  rows are picked. When one row is the first to attain two of the four extremes, its point
  occupies both slots, the output holds a point twice and some row of the input is picked
  for no slot; if the four input points are different, the point of that row is absent
  from the output, which is not a permutation of the input. A point that attains an
  extreme only in a tie with an earlier row is not picked for it.
\<close>

theorem order_points_first_rows:
  assumes "length pts = 4" and "order_points pts = Inr r"
  shows "first_min_row row_sum pts (picks pts ! 0) \<and>
         first_min_row row_diff pts (picks pts ! 1) \<and>
         first_max_row row_sum pts (picks pts ! 2) \<and>
         first_max_row row_diff pts (picks pts ! 3) \<and>
         r = map ((!) pts) (picks pts) \<and>
         set r \<subseteq> set pts \<and>
         (distinct (picks pts) \<longrightarrow> mset r = mset pts) \<and>
         (\<not> distinct (picks pts) \<longrightarrow>
            \<not> distinct r \<and>
            (\<exists>i<length pts. i \<notin> set (picks pts) \<and> (distinct pts \<longrightarrow> pts ! i \<notin> set r)) \<and>
            (distinct pts \<longrightarrow> mset r \<noteq> mset pts))"
proof -
  from assms(1) have ne: "pts \<noteq> []" by auto
  have first: "first_min_row row_sum pts (picks pts ! 0)"
    "first_min_row row_diff pts (picks pts ! 1)"
    "first_max_row row_sum pts (picks pts ! 2)"
    "first_max_row row_diff pts (picks pts ! 3)"
    using first_min_row_argmin [OF ne] first_max_row_argmax [OF ne]
    by (simp_all add: picks_def sum_axis1_def diff_axis1_def)
  from ne assms(2) have r: "r = map ((!) pts) (picks pts)"
    by (simp add: order_points_picks)
  have bound: "\<forall>i\<in>set (picks pts). i < length pts"
    using ne by (rule picks_bound)
  then have sub: "set r \<subseteq> set pts"
    by (auto simp: r)
  have perm: "mset r = mset pts" if "distinct (picks pts)"
    unfolding r using that bound by (intro mset_map_nth_distinct) (simp_all add: length_picks assms(1))
  have twice: "\<not> distinct r" if "\<not> distinct (picks pts)"
    using that by (auto simp: r distinct_map)
  have absent: "\<exists>i<length pts. i \<notin> set (picks pts) \<and> (distinct pts \<longrightarrow> pts ! i \<notin> set r)"
    if nd: "\<not> distinct (picks pts)"
  proof -
    from unpicked_index [OF assms(1) nd]
    obtain i where i: "i < length pts" "i \<notin> set (picks pts)" by blast
    have "pts ! i \<notin> set r" if d: "distinct pts"
    proof
      assume "pts ! i \<in> set r"
      then obtain j where j: "j \<in> set (picks pts)" "pts ! j = pts ! i"
        by (auto simp: r)
      with bound have "j < length pts" by blast
      with d i(1) j(2) have "j = i" by (simp add: nth_eq_iff_index_eq)
      with i(2) j(1) show False by simp
    qed
    with i show ?thesis by blast
  qed
  have noperm: "mset r \<noteq> mset pts" if nd: "\<not> distinct (picks pts)" and d: "distinct pts"
  proof
    assume "mset r = mset pts"
    then have "set r = set pts" by (rule mset_eq_setD)
    moreover from absent [OF nd] d obtain i where "i < length pts" "pts ! i \<notin> set r" by blast
    ultimately show False by (metis nth_mem)
  qed
  from first r sub perm twice absent noperm show ?thesis by blast
qed

theorem order_points_first_rows_witness:
  "length ([(5, 0), (10, 5), (5, 10), (0, 5)] :: point list) = 4 \<and>
   order_points [(5, 0), (10, 5), (5, 10), (0, 5)] = Inr [(5, 0), (5, 0), (10, 5), (5, 10)] \<and>
   picks [(5, 0), (10, 5), (5, 10), (0, 5)] = [0, 0, 1, 2] \<and>
   distinct ([(5, 0), (10, 5), (5, 10), (0, 5)] :: point list) \<and>
   first_min_row row_sum [(5, 0), (10, 5), (5, 10), (0, 5)] 0 \<and>
   first_min_row row_diff [(5, 0), (10, 5), (5, 10), (0, 5)] 0 \<and>
   first_max_row row_sum [(5, 0), (10, 5), (5, 10), (0, 5)] 1 \<and>
   first_max_row row_diff [(5, 0), (10, 5), (5, 10), (0, 5)] 2 \<and>
   set [(5, 0), (5, 0), (10, 5), (5, 10)] \<subseteq> set ([(5, 0), (10, 5), (5, 10), (0, 5)] :: point list) \<and>
   \<not> distinct ([(5, 0), (5, 0), (10, 5), (5, 10)] :: point list) \<and>
   mset [(5, 0), (5, 0), (10, 5), (5, 10)] \<noteq> mset ([(5, 0), (10, 5), (5, 10), (0, 5)] :: point list)"
proof -
  let ?ps = "[(5, 0), (10, 5), (5, 10), (0, 5)] :: point list"
  let ?r = "[(5, 0), (5, 0), (10, 5), (5, 10)] :: point list"
  have l: "length ?ps = 4" by simp
  have o: "order_points ?ps = Inr ?r" by (simp add: order_points_eval)
  have p: "picks ?ps = [0, 0, 1, 2]" by (simp add: picks_def order_points_eval)
  have d: "distinct ?ps" by simp
  from order_points_first_rows [OF l o]
  have "first_min_row row_sum ?ps 0" and "first_min_row row_diff ?ps 0"
    and "first_max_row row_sum ?ps 1" and "first_max_row row_diff ?ps 2"
    and "set ?r \<subseteq> set ?ps" and "\<not> distinct ?r" and "mset ?r \<noteq> mset ?ps"
    unfolding p using d by simp_all
  with l o p d show ?thesis by (intro conjI)
qed

section \<open>The perspective warp\<close>

lemma py_int_mono:
  assumes "x \<le> y"
  shows "py_int x \<le> py_int y"
proof (cases "0 \<le> x")
  case True
  with assms show ?thesis by (simp add: py_int_def floor_mono)
next
  case False
  show ?thesis
  proof (cases "0 \<le> y")
    case True
    have "\<lceil>x\<rceil> \<le> 0" using False by (simp add: ceiling_le_iff)
    moreover have "0 \<le> \<lfloor>y\<rfloor>" using True by simp
    moreover have "py_int x = \<lceil>x\<rceil>" using False by (simp add: py_int_def)
    moreover have "py_int y = \<lfloor>y\<rfloor>" using True by (simp add: py_int_def)
    ultimately show ?thesis by linarith
  next
    case False
    with \<open>\<not> 0 \<le> x\<close> assms show ?thesis by (simp add: py_int_def ceiling_mono)
  qed
qed

lemma py_int_max: "max (py_int a) (py_int b) = py_int (max a b)"
  using py_int_mono [of a b] py_int_mono [of b a]
  by (cases "a \<le> b") (simp_all add: max_def)

lemma py_int_of_int: "py_int (of_int n) = n"
  by (simp add: py_int_def)

lemma py_int_zero: "py_int 0 = 0"
  by (simp add: py_int_def)

lemma py_int_neg_one: "py_int (- 1) = - 1"
  using py_int_of_int [of "- 1"] by simp

lemma py_int_nonneg: "0 \<le> x \<Longrightarrow> 0 \<le> py_int x"
  by (simp add: py_int_def)


lemma edge_length_nonneg: "0 \<le> edge_length p q"
proof -
  have "0 \<le> f32 (f32 (a * a) + f32 (b * b))" for a b :: real
    by (intro f32_nonneg add_nonneg_nonneg) simp_all
  then show ?thesis
    by (simp add: edge_length_def Let_def f32_sqrt_nonneg)
qed

lemma edge_length_same: "edge_length p p = 0"
  by (simp add: edge_length_def f32_sqrt_def f32_zero)

lemma int_of_f32_finite: "0 \<le> x \<Longrightarrow> x < 2 ^ 128 \<Longrightarrow> int_of_f32 x = Inr (py_int x)"
  by (simp add: int_of_f32_def)

lemma int_of_f32_infinite: "0 \<le> x \<Longrightarrow> \<not> x < 2 ^ 128 \<Longrightarrow> int_of_f32 x = Inl OverflowError"
  by (simp add: int_of_f32_def)

lemma int_of_edge_length:
  "int_of_f32 (edge_length p q) =
     (if edge_length p q < 2 ^ 128 then Inr (py_int (edge_length p q)) else Inl OverflowError)"
  using edge_length_nonneg [of p q] by (simp add: int_of_f32_def)

lemma four_point_transform_Inr:
  assumes "order_points pts = Inr [a, b, c, d]"
    and "edge_length c d < 2 ^ 128" and "edge_length b a < 2 ^ 128"
    and "edge_length b c < 2 ^ 128" and "edge_length a d < 2 ^ 128"
  shows "four_point_transform img pts =
           Inr ([(0, 0),
                 (f32 (of_int (py_int (max (edge_length c d) (edge_length b a)) - 1)), 0),
                 (f32 (of_int (py_int (max (edge_length c d) (edge_length b a)) - 1)),
                  f32 (of_int (py_int (max (edge_length b c) (edge_length a d)) - 1))),
                 (0, f32 (of_int (py_int (max (edge_length b c) (edge_length a d)) - 1)))],
                [a, b, c, d])"
  using assms
  by (simp add: four_point_transform_def Let_def int_of_edge_length py_int_max del: of_int_diff)

lemma four_point_transform_overflow:
  assumes "order_points pts = Inr [a, b, c, d]"
    and "\<not> (edge_length c d < 2 ^ 128 \<and> edge_length b a < 2 ^ 128 \<and>
            edge_length b c < 2 ^ 128 \<and> edge_length a d < 2 ^ 128)"
  shows "four_point_transform img pts = Inl OverflowError"
  using assms
  by (auto simp add: four_point_transform_def Let_def int_of_edge_length)

lemma warp_perspective_Inr:
  assumes "order_points pts = Inr [a, b, c, d]"
    and "edge_length c d < 2 ^ 128" and "edge_length b a < 2 ^ 128"
    and "edge_length b c < 2 ^ 128" and "edge_length a d < 2 ^ 128"
  shows "\<exists>dst. warp_perspective cv img pts =
           Inr (warpPerspective cv img (getPerspectiveTransform cv [a, b, c, d] dst)
                  (py_int (f32 (of_int (py_int (max (edge_length c d) (edge_length b a)) - 1))) + 1,
                   py_int (f32 (of_int (py_int (max (edge_length b c) (edge_length a d)) - 1))) + 1))"
  by (rule exI)
     (simp add: warp_perspective_def four_point_transform_Inr [OF assms] Let_def del: of_int_diff)

lemma warp_perspective_overflow:
  assumes "order_points pts = Inr [a, b, c, d]"
    and "\<not> (edge_length c d < 2 ^ 128 \<and> edge_length b a < 2 ^ 128 \<and>
            edge_length b c < 2 ^ 128 \<and> edge_length a d < 2 ^ 128)"
  shows "warp_perspective cv img pts = Inl OverflowError"
  by (simp add: warp_perspective_def four_point_transform_overflow [OF assms])

lemma dst_entry:
  assumes "0 \<le> n" and "n \<le> 2 ^ 24"
  shows "py_int (f32 (of_int (n - 1))) + 1 = n"
proof -
  have "\<bar>n - 1\<bar> \<le> 2 ^ 24" using assms by (simp add: abs_le_iff)
  then have "f32 (of_int (n - 1)) = of_int (n - 1)" by (rule f32_of_int)
  then show ?thesis by (simp only: py_int_of_int)
qed


lemma rows_black: "rows (black w h) = h"
  by (simp add: black_def)

lemma cols_black: "cols (black w h) = w"
  by (simp add: black_def)

lemma black_cv2_warp:
  "warpPerspective black_cv2 img M dsize =
     (if 0 < fst dsize \<and> 0 < snd dsize then black (fst dsize) (snd dsize)
      else black (cols img) (rows img))"
  by (simp add: black_cv2_def)


lemma black_cv2_warp_size: "opencv_warp_size black_cv2 side_limit"
  by (simp add: opencv_warp_size_def black_cv2_warp rows_black cols_black)



lemma warp_perspective_size:
  assumes "order_points pts = Inr [top_l, top_r, bot_r, bot_l]"
    and "opencv_warp_size cv side_limit" and "side_limit \<le> 2 ^ 24"
    and "1 \<le> cols img" and "cols img \<le> side_limit" and "1 \<le> rows img" and "rows img \<le> side_limit"
    and "W = py_int (max (edge_length bot_r bot_l) (edge_length top_r top_l))"
    and "H = py_int (max (edge_length top_r bot_r) (edge_length top_l bot_l))"
    and "W \<le> side_limit" and "H \<le> side_limit"
  shows "\<exists>out. warp_perspective cv img pts = Inr out \<and>
            cols out = (if 1 \<le> W \<and> 1 \<le> H then W else cols img) \<and>
            rows out = (if 1 \<le> W \<and> 1 \<le> H then H else rows img)"
proof -
  have fin: "a < 2 ^ 128 \<and> b < 2 ^ 128" if "py_int (max a b) \<le> 2 ^ 24" and "0 \<le> a" and "0 \<le> b"
    for a b :: real
  proof -
    have "0 \<le> max a b" using that(2) by simp
    then have "py_int (max a b) = \<lfloor>max a b\<rfloor>" by (simp add: py_int_def)
    with that(1) have "\<lfloor>max a b\<rfloor> \<le> 2 ^ 24" by simp
    then have "max a b < 2 ^ 24 + 1" by (simp add: floor_le_iff)
    also have "(2 :: real) ^ 24 + 1 < 2 ^ 128" by simp
    finally show ?thesis by simp
  qed
  have W24: "W \<le> 2 ^ 24" and H24: "H \<le> 2 ^ 24"
    using assms(3,10,11) by simp_all
  have fw: "edge_length bot_r bot_l < 2 ^ 128 \<and> edge_length top_r top_l < 2 ^ 128"
    using assms(8) W24 by (intro fin edge_length_nonneg) simp
  have fh: "edge_length top_r bot_r < 2 ^ 128 \<and> edge_length top_l bot_l < 2 ^ 128"
    using assms(9) H24 by (intro fin edge_length_nonneg) simp
  have W0: "0 \<le> W" and H0: "0 \<le> H"
    using edge_length_nonneg [of bot_r bot_l] edge_length_nonneg [of top_r bot_r]
    by (simp_all add: assms(8,9) py_int_nonneg le_max_iff_disj)
  have w: "py_int (f32 (of_int (W - 1))) + 1 = W" and h: "py_int (f32 (of_int (H - 1))) + 1 = H"
    using W0 H0 W24 H24 by (simp_all only: dst_entry)
  from warp_perspective_Inr [OF assms(1), of cv img] fw fh
  obtain dst where M: "warp_perspective cv img pts =
      Inr (warpPerspective cv img (getPerspectiveTransform cv [top_l, top_r, bot_r, bot_l] dst) (W, H))"
    unfolding assms(8) [symmetric] assms(9) [symmetric] w h by blast
  have "(1 \<le> W \<and> 1 \<le> H) = (0 < W \<and> 0 < H)" by auto
  with assms(2,4,5,6,7,10,11) W0 H0
  have "cols (warpPerspective cv img (getPerspectiveTransform cv [top_l, top_r, bot_r, bot_l] dst) (W, H)) =
      (if 1 \<le> W \<and> 1 \<le> H then W else cols img)"
    and "rows (warpPerspective cv img (getPerspectiveTransform cv [top_l, top_r, bot_r, bot_l] dst) (W, H)) =
      (if 1 \<le> W \<and> 1 \<le> H then H else rows img)"
    by (simp_all add: opencv_warp_size_def)
  with M show ?thesis by (intro exI conjI)
qed

lemma f32_2p64: "f32 18446744073709551616 = 18446744073709551616"
  by (rule f32_exact [where m = 1 and k = 64]) simp_all

lemma f32_neg_2p64: "f32 (- 18446744073709551616) = - 18446744073709551616"
  by (rule f32_exact [where m = "- 1" and k = 64]) simp_all

lemma f32_2p65: "f32 36893488147419103232 = 36893488147419103232"
  by (rule f32_exact [where m = 1 and k = 65]) simp_all

lemma f32_2p128: "f32 340282366920938463463374607431768211456 = 340282366920938463463374607431768211456"
proof -
  have "round_float 24 (- 126) 340282366920938463463374607431768211456 =
      340282366920938463463374607431768211456"
    by (rule round_float_exact [where m = 1 and k = 128]) simp_all
  then show ?thesis by (simp add: f32_def)
qed

lemma far_square_order:
  "order_points [(0, 0), (2 ^ 64, 0), (2 ^ 64, 2 ^ 64), (0, 2 ^ 64)] =
     Inr [(0, 0), (2 ^ 64, 0), (2 ^ 64, 2 ^ 64), (0, 2 ^ 64)]"
  by (simp add: order_points_eval f32_2p64 f32_neg_2p64 f32_2p65)

lemma far_square_edge:
  "edge_length (18446744073709551616, 18446744073709551616) (0, 18446744073709551616) =
     340282366920938463463374607431768211456"
  by (simp add: edge_length_def f32_sqrt_def f32_int f32_2p64 f32_2p128)

subsection \<open>The buffer returned\<close>

text \<open>
  C2, as the specification states it: for the square with the corners
  \<open>(0,0), (2^64,0), (2^64,2^64), (0,2^64)\<close>, all of them finite \<open>float32\<close> numbers, the square
  of the side is \<open>2^128\<close>, beyond the largest \<open>float32\<close>; the length of the edge is infinite
  and \<open>int(width_a)\<close> raises \<open>OverflowError\<close>: no image is returned.
\<close>

theorem warp_perspective_overflow_counterexample:
  "warp_perspective black_cv2 (black 2 2) [(0, 0), (2 ^ 64, 0), (2 ^ 64, 2 ^ 64), (0, 2 ^ 64)] =
     Inl OverflowError"
  by (rule warp_perspective_overflow [OF far_square_order]) (simp add: far_square_edge)

text \<open>
  C2, amended: for every image with at least one pixel and every four corner points,
  \<open>warp_perspective\<close> raises \<open>OverflowError\<close> when one of the four edge lengths that
  \<open>four_point_transform\<close> computes in \<open>float32\<close> is infinite. When the width and the height
  it asks for (the larger of the two truncated lengths on each axis) are within the sizes
  that OpenCV handles, it returns an image whose width and height are both at least 1. A
  corner set collapsed to one point is no error: the size asked for is \<open>(0, 0)\<close> and the
  image returned has the size of the source image. (\<open>cv2.warpPerspective\<close> returns the
  size it is asked for, and the size of the source for an empty size.)
\<close>

theorem warp_perspective_buffer:
  assumes "length pts = 4"
    and "order_points pts = Inr [top_l, top_r, bot_r, bot_l]"
    and "opencv_warp_size cv side_limit" and "side_limit \<le> 2 ^ 24"
    and "1 \<le> cols img" and "cols img \<le> side_limit" and "1 \<le> rows img" and "rows img \<le> side_limit"
  shows "(\<not> (edge_length bot_r bot_l < 2 ^ 128 \<and> edge_length top_r top_l < 2 ^ 128 \<and>
             edge_length top_r bot_r < 2 ^ 128 \<and> edge_length top_l bot_l < 2 ^ 128) \<longrightarrow>
            warp_perspective cv img pts = Inl OverflowError) \<and>
         (py_int (max (edge_length bot_r bot_l) (edge_length top_r top_l)) \<le> side_limit \<and>
          py_int (max (edge_length top_r bot_r) (edge_length top_l bot_l)) \<le> side_limit \<longrightarrow>
            (\<exists>out. warp_perspective cv img pts = Inr out \<and> 1 \<le> cols out \<and> 1 \<le> rows out)) \<and>
         (top_l = top_r \<and> top_r = bot_r \<and> bot_r = bot_l \<longrightarrow>
            (\<exists>out. warp_perspective cv img pts = Inr out \<and>
               cols out = cols img \<and> rows out = rows img))"
proof (intro conjI impI)
  assume "\<not> (edge_length bot_r bot_l < 2 ^ 128 \<and> edge_length top_r top_l < 2 ^ 128 \<and>
             edge_length top_r bot_r < 2 ^ 128 \<and> edge_length top_l bot_l < 2 ^ 128)"
  then show "warp_perspective cv img pts = Inl OverflowError"
    by (rule warp_perspective_overflow [OF assms(2)])
next
  assume b: "py_int (max (edge_length bot_r bot_l) (edge_length top_r top_l)) \<le> side_limit \<and>
          py_int (max (edge_length top_r bot_r) (edge_length top_l bot_l)) \<le> side_limit"
  from warp_perspective_size [OF assms(2-8) refl refl b [THEN conjunct1] b [THEN conjunct2]]
  obtain out where o: "warp_perspective cv img pts = Inr out"
    and "cols out = cols img \<or> 1 \<le> cols out" and "rows out = rows img \<or> 1 \<le> rows out"
    by (auto split: if_splits)
  with assms(5,7) have "1 \<le> cols out" and "1 \<le> rows out" by auto
  with o show "\<exists>out. warp_perspective cv img pts = Inr out \<and> 1 \<le> cols out \<and> 1 \<le> rows out"
    by (intro exI conjI)
next
  assume eq: "top_l = top_r \<and> top_r = bot_r \<and> bot_r = bot_l"
  have z: "0 = py_int (max (edge_length bot_r bot_l) (edge_length top_r top_l))"
    "0 = py_int (max (edge_length top_r bot_r) (edge_length top_l bot_l))"
    using eq by (simp_all add: edge_length_same py_int_zero)
  have l: "0 \<le> side_limit" using assms(5,6) by simp
  from warp_perspective_size [OF assms(2-8) z l l]
  show "\<exists>out. warp_perspective cv img pts = Inr out \<and> cols out = cols img \<and> rows out = rows img"
    by simp
qed

theorem warp_perspective_buffer_witness:
  "length ([(3, 3), (3, 3), (3, 3), (3, 3)] :: point list) = 4 \<and>
   order_points [(3, 3), (3, 3), (3, 3), (3, 3)] = Inr [(3, 3), (3, 3), (3, 3), (3, 3)] \<and>
   length ([(0, 0), (2 ^ 64, 0), (2 ^ 64, 2 ^ 64), (0, 2 ^ 64)] :: point list) = 4 \<and>
   order_points [(0, 0), (2 ^ 64, 0), (2 ^ 64, 2 ^ 64), (0, 2 ^ 64)] =
     Inr [(0, 0), (2 ^ 64, 0), (2 ^ 64, 2 ^ 64), (0, 2 ^ 64)] \<and>
   opencv_warp_size black_cv2 32767 \<and> (32767 :: int) \<le> 2 ^ 24 \<and>
   1 \<le> cols (black 2 2) \<and> cols (black 2 2) \<le> 32767 \<and>
   1 \<le> rows (black 2 2) \<and> rows (black 2 2) \<le> 32767 \<and>
   \<not> edge_length (2 ^ 64, 2 ^ 64) (0, 2 ^ 64) < 2 ^ 128 \<and>
   py_int (max (edge_length (3, 3) (3, 3)) (edge_length (3, 3) (3, 3))) \<le> 32767 \<and>
   warp_perspective black_cv2 (black 2 2) [(0, 0), (2 ^ 64, 0), (2 ^ 64, 2 ^ 64), (0, 2 ^ 64)] =
     Inl OverflowError \<and>
   (\<exists>out. warp_perspective black_cv2 (black 2 2) [(3, 3), (3, 3), (3, 3), (3, 3)] = Inr out \<and>
      1 \<le> cols out \<and> 1 \<le> rows out) \<and>
   (\<exists>out. warp_perspective black_cv2 (black 2 2) [(3, 3), (3, 3), (3, 3), (3, 3)] = Inr out \<and>
      cols out = cols (black 2 2) \<and> rows out = rows (black 2 2))"
proof -
  let ?ps = "[(3, 3), (3, 3), (3, 3), (3, 3)] :: point list"
  let ?qs = "[(0, 0), (2 ^ 64, 0), (2 ^ 64, 2 ^ 64), (0, 2 ^ 64)] :: point list"
  have l: "length ?ps = 4" and l': "length ?qs = 4" by simp_all
  have o: "order_points ?ps = Inr [(3, 3), (3, 3), (3, 3), (3, 3)]"
    by (simp add: order_points_eval)
  have n: "(32767 :: int) \<le> 2 ^ 24" by simp
  have c: "1 \<le> cols (black 2 2)" "cols (black 2 2) \<le> 32767"
    "1 \<le> rows (black 2 2)" "rows (black 2 2) \<le> 32767"
    by (simp_all add: rows_black cols_black)
  have inf: "\<not> edge_length (2 ^ 64, 2 ^ 64) (0, 2 ^ 64) < 2 ^ 128"
    by (simp add: far_square_edge)
  have e: "py_int (max (edge_length (3, 3) (3, 3)) (edge_length (3, 3) (3, 3))) \<le> 32767"
    by (simp add: edge_length_same py_int_zero)
  note t = warp_perspective_buffer [OF l o black_cv2_warp_size n c]
  note t' = warp_perspective_buffer [OF l' far_square_order black_cv2_warp_size n c]
  from t' [THEN conjunct1] inf
  have a: "warp_perspective black_cv2 (black 2 2) ?qs = Inl OverflowError"
    by simp
  from t [THEN conjunct2, THEN conjunct1] e
  have b: "\<exists>out. warp_perspective black_cv2 (black 2 2) ?ps = Inr out \<and> 1 \<le> cols out \<and> 1 \<le> rows out"
    by simp
  from t [THEN conjunct2, THEN conjunct2]
  have d: "\<exists>out. warp_perspective black_cv2 (black 2 2) ?ps = Inr out \<and>
      cols out = cols (black 2 2) \<and> rows out = rows (black 2 2)"
    by simp
  from l o l' far_square_order black_cv2_warp_size [of 32767] n c inf e a b d
  show ?thesis by (intro conjI)
qed









subsection \<open>The size of the output\<close>








section \<open>The enhancement stages\<close>

subsection \<open>Sharpening\<close>

lemma saturate_u8_unsigned: "saturate_u8 (unsigned (a :: u8)) = a"
proof -
  have "(unsigned a :: real) = of_int (uint a)"
    by (simp add: of_int_uint)
  then have "saturate_u8 (unsigned a) = word_of_int (max 0 (min 255 (round_half_even (of_int (uint a)))))"
    by (simp only: saturate_u8_def)
  also have "\<dots> = word_of_int (max 0 (min 255 (uint a)))"
    by (simp only: round_half_even_of_int)
  also have "max 0 (min 255 (uint a)) = uint a"
    using uint_bounded [of a] by simp
  finally show ?thesis by simp
qed

lemma map2_fst: "length xs = length ys \<Longrightarrow> map2 (\<lambda>a b. a) xs ys = xs"
  by (induction xs ys rule: list_induct2) simp_all

lemma clip_u8_id: "clip_u8 img = img"
proof -
  have "max 0 (min 255 v) = v" for v :: u8
  proof -
    have "(255 :: u8) = - 1" by simp
    then have "v \<le> 255" by (simp only: word_n1_ge)
    then show ?thesis by (simp add: max_def min_def)
  qed
  then show ?thesis by (simp add: clip_u8_def)
qed

lemma black_cv2_blur: "GaussianBlur black_cv2 img ksize sigma = black (cols img) (rows img)"
  by (simp add: black_cv2_def)

text \<open>
  C9: with \<open>amount = 1\<close> the weights of the combination are \<open>1\<close> and \<open>1 - 1 = 0\<close>, every
  byte of the result is the byte of the original, and \<open>apply_sharpen\<close> returns the image it
  was given, for every image whose blurred copy has its size (as a Gaussian blur does).
\<close>

theorem apply_sharpen_amount_one:
  assumes "rows (GaussianBlur cv img (0, 0) sigma) = rows img"
    and "cols (GaussianBlur cv img (0, 0) sigma) = cols img"
    and "length (data (GaussianBlur cv img (0, 0) sigma)) = length (data img)"
  shows "apply_sharpen cv img 1 sigma = Inr img"
  using assms
  by (simp add: apply_sharpen_def addWeighted_def saturate_u8_unsigned map2_fst clip_u8_id)

theorem apply_sharpen_amount_one_witness:
  "rows (GaussianBlur black_cv2 \<lparr>rows = 1, cols = 1, data = [10, 200, 255]\<rparr> (0, 0) 5) =
     rows \<lparr>rows = 1, cols = 1, data = [10, 200, 255]\<rparr> \<and>
   cols (GaussianBlur black_cv2 \<lparr>rows = 1, cols = 1, data = [10, 200, 255]\<rparr> (0, 0) 5) =
     cols \<lparr>rows = 1, cols = 1, data = [10, 200, 255]\<rparr> \<and>
   length (data (GaussianBlur black_cv2 \<lparr>rows = 1, cols = 1, data = [10, 200, 255]\<rparr> (0, 0) 5)) =
     length (data \<lparr>rows = 1, cols = 1, data = [10, 200, 255]\<rparr>) \<and>
   apply_sharpen black_cv2 \<lparr>rows = 1, cols = 1, data = [10, 200, 255]\<rparr> 1 5 =
     Inr \<lparr>rows = 1, cols = 1, data = [10, 200, 255]\<rparr>"
proof -
  let ?img = "\<lparr>rows = 1, cols = 1, data = [10, 200, 255]\<rparr> :: image"
  have r: "rows (GaussianBlur black_cv2 ?img (0, 0) 5) = rows ?img"
    and c: "cols (GaussianBlur black_cv2 ?img (0, 0) 5) = cols ?img"
    and d: "length (data (GaussianBlur black_cv2 ?img (0, 0) 5)) = length (data ?img)"
    by (simp_all add: black_cv2_blur black_def)
  from r c d apply_sharpen_amount_one [OF r c d] show ?thesis by (intro conjI)
qed

subsection \<open>The size clamp\<close>













































subsection \<open>The pipeline\<close>

text \<open>
  C7: with denoise, local contrast, sharpen and size clamp all disabled, \<open>full_pipeline\<close>
  returns what \<open>warp_perspective\<close> returns, for every image, corner set, reference
  dimension and every value of the parameters of the stages. A disabled stage is a skip:
  the result does not depend on the parameters of a stage that is disabled.
\<close>

theorem full_pipeline_disabled_stages:
  "full_pipeline cv img pts False denoise_strength False clahe_clip False sharpen_amount False
     ref_max_dim max_scale_factor min_scale_factor = warp_perspective cv img pts \<and>
   full_pipeline cv img pts False denoise_strength clahe clahe_clip sharpen sharpen_amount clamp_enabled
     ref_max_dim max_scale_factor min_scale_factor =
   full_pipeline cv img pts False denoise_strength' clahe clahe_clip sharpen sharpen_amount clamp_enabled
     ref_max_dim max_scale_factor min_scale_factor \<and>
   full_pipeline cv img pts denoise denoise_strength False clahe_clip sharpen sharpen_amount clamp_enabled
     ref_max_dim max_scale_factor min_scale_factor =
   full_pipeline cv img pts denoise denoise_strength False clahe_clip' sharpen sharpen_amount clamp_enabled
     ref_max_dim max_scale_factor min_scale_factor \<and>
   full_pipeline cv img pts denoise denoise_strength clahe clahe_clip False sharpen_amount clamp_enabled
     ref_max_dim max_scale_factor min_scale_factor =
   full_pipeline cv img pts denoise denoise_strength clahe clahe_clip False sharpen_amount' clamp_enabled
     ref_max_dim max_scale_factor min_scale_factor \<and>
   full_pipeline cv img pts denoise denoise_strength clahe clahe_clip sharpen sharpen_amount False
     ref_max_dim max_scale_factor min_scale_factor =
   full_pipeline cv img pts denoise denoise_strength clahe clahe_clip sharpen sharpen_amount False
     ref_max_dim' max_scale_factor' min_scale_factor'"
  by (simp add: full_pipeline_def split: sum.split)

theorem full_pipeline_disabled_stages_witness:
  "full_pipeline black_cv2 (black 20 20) [(0, 0), (10, 0), (10, 10), (0, 10)]
     False 10 False 2 False 1.8 False None 1.25 0.75 =
   warp_perspective black_cv2 (black 20 20) [(0, 0), (10, 0), (10, 10), (0, 10)]"
  using full_pipeline_disabled_stages [where cv = black_cv2 and img = "black 20 20"
      and pts = "[(0, 0), (10, 0), (10, 10), (0, 10)]" and denoise_strength = 10
      and clahe_clip = 2 and sharpen_amount = "1.8" and ref_max_dim = None
      and max_scale_factor = "1.25" and min_scale_factor = "0.75"]
  by (rule conjunct1)

section \<open>Corner detection\<close>




end
